theory Spec2Isabelle
  imports Main "HOL-Library.Sublist"
begin

text \<open>
  A model of \<open>npmFileInclude.js\<close>, the command line tool that replaces
  \<open>@@include('path')\<close> directives in text files by the contents of the files they
  refer to: the pattern and \<open>getMatches\<close>, the scan \<open>checkForPattern\<close>, the classifier
  \<open>removeIncludedFiles\<close>, the resolver \<open>doFileInclude\<close>, \<open>writeFiles\<close> and \<open>init\<close>.
  The two copies of the source differ in the progress bar, the default of the source
  option, the guards at the start of \<open>init\<close> and the timing output; the model holds what
  they share.
\<close>

section \<open>JavaScript strings\<close>

text \<open>
  A JavaScript string is modelled as a \<^typ>\<open>string\<close>, one \<^typ>\<open>char\<close> per code unit.
  HOL characters are 8 bits wide, so the model covers contents whose code units are
  below 256; of the four line terminators of the language only line feed and carriage
  return are in that range.
\<close>

definition quote :: char where
  "quote = CHR 0x27"

definition line_terminator :: "char \<Rightarrow> bool" where
  "line_terminator c = (c = CHR 0x0A \<or> c = CHR 0x0D)"

text \<open>\<open>strip_prefix p s\<close>: the rest of \<open>s\<close> behind the literal text \<open>p\<close>, when \<open>s\<close> starts with it.\<close>

fun strip_prefix :: "string \<Rightarrow> string \<Rightarrow> string option" where
  "strip_prefix [] s = Some s"
| "strip_prefix (p # ps) [] = None"
| "strip_prefix (p # ps) (c # cs) = (if p = c then strip_prefix ps cs else None)"

text \<open>
  \<open>s.split('/')\<close>: the segments between the separators. The array is never empty, so
  the first branch of the \<open>case\<close> is never taken.
\<close>

fun split :: "char \<Rightarrow> string \<Rightarrow> string list" where
  "split sep [] = [[]]"
| "split sep (c # cs) =
     (if c = sep then [] # split sep cs
      else (case split sep cs of
              [] \<Rightarrow> [[c]]
            | segment # segments \<Rightarrow> (c # segment) # segments))"

text \<open>\<open>a.join('/')\<close>.\<close>

fun join :: "char \<Rightarrow> string list \<Rightarrow> string" where
  "join sep [] = []"
| "join sep [w] = w"
| "join sep (w # v # ws) = w @ sep # join sep (v # ws)"

text \<open>
  \<open>getFilename = file => file.split('/').pop()\<close> and
  \<open>getDirectory = file => { split = file.split('/'); split.pop(); return split.join('/') }\<close>.
\<close>

definition getFilename :: "string \<Rightarrow> string" where
  "getFilename file = last (split CHR ''/'' file)"

definition getDirectory :: "string \<Rightarrow> string" where
  "getDirectory file = join CHR ''/'' (butlast (split CHR ''/'' file))"

subsection \<open>\<open>String.prototype.replace\<close> with a string pattern\<close>

text \<open>
  \<open>find_first pat s\<close>: the text on each side of the leftmost occurrence of \<open>pat\<close> in \<open>s\<close>.
\<close>

fun find_first :: "string \<Rightarrow> string \<Rightarrow> (string \<times> string) option" where
  "find_first pat [] = (if pat = [] then Some ([], []) else None)"
| "find_first pat (c # cs) =
     (case strip_prefix pat (c # cs) of
        Some rest \<Rightarrow> Some ([], rest)
      | None \<Rightarrow>
          (case find_first pat cs of
             Some (preceding, rest) \<Rightarrow> Some (c # preceding, rest)
           | None \<Rightarrow> None))"

text \<open>
  The replacement text is a template: \<open>$$\<close> stands for a dollar sign, \<open>$&\<close> for the
  matched text, \<open>$`\<close> for the text in front of the match and \<open>$'\<close> for the text behind it.
  With a string pattern there are no captures, so \<open>$1\<close> .. \<open>$99\<close> and \<open>$<\<close> are kept as
  they are, like a dollar sign in front of any other character or at the end.
\<close>

fun GetSubstitution :: "string \<Rightarrow> string \<Rightarrow> string \<Rightarrow> string \<Rightarrow> string" where
  "GetSubstitution matched preceding following [] = []"
| "GetSubstitution matched preceding following [c] = [c]"
| "GetSubstitution matched preceding following (c # d # r) =
     (if c = CHR ''$'' \<and> d = CHR ''$'' then CHR ''$'' # GetSubstitution matched preceding following r
      else if c = CHR ''$'' \<and> d = CHR ''&'' then matched @ GetSubstitution matched preceding following r
      else if c = CHR ''$'' \<and> d = CHR 0x60 then preceding @ GetSubstitution matched preceding following r
      else if c = CHR ''$'' \<and> d = quote then following @ GetSubstitution matched preceding following r
      else c # GetSubstitution matched preceding following (d # r))"

text \<open>\<open>s.replace(pat, replacement)\<close>: only the first occurrence is replaced.\<close>

definition replace :: "string \<Rightarrow> string \<Rightarrow> string \<Rightarrow> string" where
  "replace s pat replacement =
     (case find_first pat s of
        None \<Rightarrow> s
      | Some (preceding, following) \<Rightarrow> preceding @ GetSubstitution pat preceding following replacement @ following)"

section \<open>The directive pattern\<close>

text \<open>
  \<open>let includePattern = /@@include\('(.*)'\)/g\<close>. The pattern is the literal text
  \<open>@@include('\<close>, a greedy capture of characters other than line terminators, and the
  literal text \<open>')\<close>.
\<close>

definition directive_open :: string where
  "directive_open = ''@@include('' @ [quote]"

definition directive_close :: string where
  "directive_close = [quote, CHR '')'']"

definition directive :: "string \<Rightarrow> string" where
  "directive p = directive_open @ p @ directive_close"

text \<open>
  \<open>(.*)'\)\<close> at the start of \<open>s\<close>: the capture takes as many characters of the line as it
  can and gives them back one by one until \<open>')\<close> follows. The result is the capture and
  the text behind \<open>')\<close>.
\<close>

fun greedy_close :: "string \<Rightarrow> (string \<times> string) option" where
  "greedy_close [] = None"
| "greedy_close (c # cs) =
     (case (if line_terminator c then None else greedy_close cs) of
        Some (capture, rest) \<Rightarrow> Some (c # capture, rest)
      | None \<Rightarrow>
          (case strip_prefix directive_close (c # cs) of
             Some rest \<Rightarrow> Some ([], rest)
           | None \<Rightarrow> None))"

text \<open>The whole pattern at the start of \<open>s\<close>.\<close>

definition match_here :: "string \<Rightarrow> (string \<times> string) option" where
  "match_here s =
     (case strip_prefix directive_open s of
        None \<Rightarrow> None
      | Some r \<Rightarrow> greedy_close r)"

text \<open>
  The leftmost position of \<open>s\<close> where the pattern matches: the text skipped in front of
  the match, the capture, and the text behind the match.
\<close>

fun search :: "string \<Rightarrow> (string \<times> string \<times> string) option" where
  "search [] = None"
| "search (c # cs) =
     (case match_here (c # cs) of
        Some (capture, rest) \<Rightarrow> Some ([], capture, rest)
      | None \<Rightarrow>
          (case search cs of
             Some (skipped, capture, rest) \<Rightarrow> Some (c # skipped, capture, rest)
           | None \<Rightarrow> None))"

record dmatch =
  string :: string
  filename :: string

text \<open>
  \<open>pattern.exec(data)\<close> for the global pattern, whose only state is \<open>lastIndex\<close>: the
  search starts there; a match moves \<open>lastIndex\<close> to its end, a failure resets it to 0.
  The match object is reduced to what \<open>getMatches\<close> reads: \<open>match[0]\<close> and \<open>match[1]\<close>.
\<close>

definition exec :: "string \<Rightarrow> nat \<Rightarrow> dmatch option \<times> nat" where
  "exec data lastIndex =
     (if length data < lastIndex then (None, 0)
      else
        (case search (drop lastIndex data) of
           None \<Rightarrow> (None, 0)
         | Some (skipped, capture, rest) \<Rightarrow>
             (Some \<lparr>string = directive capture, filename = capture\<rparr>,
              lastIndex + length skipped + length (directive capture))))"

lemma strip_prefix_Some: "strip_prefix p s = Some r \<longleftrightarrow> s = p @ r"
  by (induction p s rule: strip_prefix.induct) auto

lemma greedy_close_decomp:
  "greedy_close s = Some (capture, rest) \<Longrightarrow> s = capture @ directive_close @ rest"
  by (induction s arbitrary: capture rest)
    (auto simp: strip_prefix_Some split: option.splits if_splits)

lemma match_here_decomp:
  "match_here s = Some (capture, rest) \<Longrightarrow> s = directive capture @ rest"
  by (auto simp: match_here_def directive_def strip_prefix_Some
      dest: greedy_close_decomp split: option.splits)

lemma search_decomp:
  "search s = Some (skipped, capture, rest) \<Longrightarrow> s = skipped @ directive capture @ rest"
  by (induction s arbitrary: skipped capture rest)
    (auto dest: match_here_decomp split: option.splits)

lemma length_directive: "length (directive p) = length p + 13"
  by (simp add: directive_def directive_open_def directive_close_def)

lemma exec_Some_advances:
  assumes "exec data lastIndex = (Some m, lastIndex')"
  shows "lastIndex < lastIndex' \<and> lastIndex' \<le> length data"
proof -
  from assms obtain skipped capture rest where
    le: "lastIndex \<le> length data" and
    s: "search (drop lastIndex data) = Some (skipped, capture, rest)" and
    li: "lastIndex' = lastIndex + length skipped + length (directive capture)"
    by (auto simp: exec_def split: if_splits option.splits)
  from search_decomp [OF s]
  have "length (drop lastIndex data) = length skipped + length (directive capture) + length rest"
    by (metis length_append add.assoc)
  with le li show ?thesis
    by (simp add: length_directive)
qed

text \<open>
  \<open>getMatches\<close>: \<open>while( match = pattern.exec( data ) ) matches.push( ... )\<close>.
  The loop ends when \<open>exec\<close> returns null; the result is the array and the pattern's
  final \<open>lastIndex\<close>.
\<close>

function getMatches_loop :: "string \<Rightarrow> nat \<Rightarrow> dmatch list \<Rightarrow> dmatch list \<times> nat" where
  "getMatches_loop data lastIndex matches =
     (case exec data lastIndex of
        (None, lastIndex') \<Rightarrow> (matches, lastIndex')
      | (Some m, lastIndex') \<Rightarrow> getMatches_loop data lastIndex' (matches @ [m]))"
  by pat_completeness auto
termination
proof (relation "measure (\<lambda>(data, lastIndex, matches). length data - lastIndex)")
  show "wf (measure (\<lambda>(data, lastIndex, matches). length data - lastIndex))"
    by simp
next
  fix data :: string and lastIndex :: nat and matches :: "dmatch list"
    and x m lastIndex'
  assume "(x, lastIndex') = exec data lastIndex" and "x = Some m"
  then have "exec data lastIndex = (Some m, lastIndex')"
    by simp
  from exec_Some_advances [OF this]
  have "length data - lastIndex' < length data - lastIndex"
    by arith
  then show "((data, lastIndex', matches @ [m]), (data, lastIndex, matches))
        \<in> measure (\<lambda>(data, lastIndex, matches). length data - lastIndex)"
    by simp
qed

declare getMatches_loop.simps [simp del]

text \<open>
  The only pattern the program passes to \<open>getMatches\<close> is \<open>includePattern\<close>. Every call
  runs the loop to its end, so the shared pattern is at \<open>lastIndex = 0\<close> whenever
  \<open>getMatches\<close> is entered.
\<close>

definition getMatches :: "string \<Rightarrow> dmatch list" where
  "getMatches data = fst (getMatches_loop data 0 [])"

text \<open>Text that the capture of the pattern can hold: no line terminator.\<close>

definition single_line :: "string \<Rightarrow> bool" where
  "single_line p = list_all (\<lambda>c. \<not> line_terminator c) p"

section \<open>The environment\<close>

text \<open>
  The file system, \<open>mkdirp\<close> and \<open>path.dirname\<close> belong to the platform, not to the
  program: they are parameters of the model. A read either returns the contents or
  throws an error with a code; creating a directory and writing a file either succeed
  or throw, and change the file system in some way.
\<close>

datatype errno = EISDIR | ENOENT | EACCES

record 'fs node =
  readFileSync :: "'fs \<Rightarrow> string \<Rightarrow> errno + string"
  mkdirp_sync :: "'fs \<Rightarrow> string \<Rightarrow> bool \<times> 'fs"
  writeFileSync :: "'fs \<Rightarrow> string \<Rightarrow> string \<Rightarrow> bool \<times> 'fs"
  dirname :: "string \<Rightarrow> string"

text \<open>The command line options that the code reads once \<open>findFiles\<close> has returned.\<close>

record commander =
  destination :: string
  omitSourceParent :: bool
  includeRecursive :: bool

text \<open>
  The mutable state of a run: the \<open>summary\<close> counters, and the messages passed to
  \<open>log\<close> at level \<open>logFlags.DEFAULT\<close>, in order, each with its log type. The
  diagnostics of level \<open>EXTRAVERBOSE\<close> and the progress bar are left out.
\<close>

datatype logType = INFO | WARNING | ERROR | DEFAULT

record state =
  written :: nat
  errors :: nat
  log :: "(logType \<times> string) list"

section \<open>Scanning and classifying the discovered files\<close>

record source_file =
  directory :: string
  filename :: string
  matches :: "dmatch list"

text \<open>
  \<open>checkForPattern\<close>: the loop over the discovered files. A file with at least one
  match is pushed to \<open>hasPattern\<close>; a read that throws \<open>EISDIR\<close> logs and leaves the
  loop; any other error is swallowed and the loop goes on.
\<close>

fun checkForPattern_loop ::
  "(string \<Rightarrow> errno + string) \<Rightarrow> (string \<Rightarrow> string) \<Rightarrow> string list \<Rightarrow>
   source_file list \<Rightarrow> state \<Rightarrow> source_file list \<times> state" where
  "checkForPattern_loop read dirname' [] hasPattern st = (hasPattern, st)"
| "checkForPattern_loop read dirname' (file # files) hasPattern st =
     (case read file of
        Inr contents \<Rightarrow>
          (let matches = getMatches contents
           in if matches \<noteq> []
              then checkForPattern_loop read dirname' files
                     (hasPattern @
                      [\<lparr>directory = dirname' file, filename = getFilename file,
                        matches = matches\<rparr>]) st
              else checkForPattern_loop read dirname' files hasPattern st)
      | Inl error \<Rightarrow>
          if error = EISDIR
          then (hasPattern,
                st\<lparr>log := log st @ [(ERROR, ''Cannot read the source directory'')]\<rparr>)
          else checkForPattern_loop read dirname' files hasPattern st)"

definition checkForPattern ::
  "(string \<Rightarrow> errno + string) \<Rightarrow> (string \<Rightarrow> string) \<Rightarrow> string list \<Rightarrow> state \<Rightarrow>
   source_file list \<times> state" where
  "checkForPattern read dirname' files st = checkForPattern_loop read dirname' files [] st"

text \<open>
  \<open>removeIncludedFiles\<close>: the outer loop runs over the array passed in, the inner loop
  over the matches of each of its files; every match filters the current \<open>files\<close>.
\<close>

fun remove_for_matches :: "dmatch list \<Rightarrow> source_file list \<Rightarrow> source_file list" where
  "remove_for_matches [] files = files"
| "remove_for_matches (match # rest) files =
     remove_for_matches rest
       (filter (\<lambda>file. getFilename (dmatch.filename match) \<noteq> source_file.filename file) files)"

fun remove_for_files :: "source_file list \<Rightarrow> source_file list \<Rightarrow> source_file list" where
  "remove_for_files [] files = files"
| "remove_for_files (file # rest) files =
     remove_for_files rest (remove_for_matches (matches file) files)"

definition removeIncludedFiles :: "source_file list \<Rightarrow> source_file list" where
  "removeIncludedFiles files = remove_for_files files files"

section \<open>Resolving the directives\<close>

text \<open>
  The argument of \<open>doFileInclude\<close> is either a scanned file, which has no \<open>string\<close>
  property, or a match to which the property \<open>directory\<close> has been added.
\<close>

datatype include_arg = File source_file | Match string dmatch

fun directory_of :: "include_arg \<Rightarrow> string" where
  "directory_of (File f) = source_file.directory f"
| "directory_of (Match dir m) = dir"

fun filename_of :: "include_arg \<Rightarrow> string" where
  "filename_of (File f) = source_file.filename f"
| "filename_of (Match dir m) = dmatch.filename m"

fun string_of :: "include_arg \<Rightarrow> string option" where
  "string_of (File f) = None"
| "string_of (Match dir m) = Some (dmatch.string m)"

text \<open>\<open>ToString\<close> of a property that may be undefined.\<close>

definition ToString :: "string option \<Rightarrow> string" where
  "ToString v = (case v of None \<Rightarrow> ''undefined'' | Some s \<Rightarrow> s)"

text \<open>
  How the loop over the matches of a file ends: by reaching the end of the matches, by a
  read that threw, or by a nested call for which the call stack had no room.
\<close>

datatype outcome = Completed | Threw errno | StackExhausted

text \<open>
  The \<open>catch\<close> block of \<open>doFileInclude\<close>, entered with the value \<open>contents\<close> has at the
  moment of the throw.
\<close>

definition file_not_found :: "include_arg \<Rightarrow> bool \<Rightarrow> string \<Rightarrow> state \<Rightarrow> string \<times> state" where
  "file_not_found file insertNotFound contents st =
     (let includeContents = ''File not found: '' @ filename_of file;
          contents' =
            (if insertNotFound = True
             then replace contents (ToString (string_of file)) includeContents
             else contents)
      in (contents',
          st\<lparr>log := log st @ [(ERROR, includeContents)], errors := errors st + 1\<rparr>))"

text \<open>
  The directory given to every match of a file:
  \<open>matchDirectory = getDirectory( file.filename )\<close> and
  \<open>match.directory = matchDirectory ? `${file.directory}/${matchDirectory}` : file.directory\<close>.
\<close>

definition match_directory :: "include_arg \<Rightarrow> string" where
  "match_directory file =
     (let matchDirectory = getDirectory (filename_of file)
      in if matchDirectory \<noteq> []
         then directory_of file @ ''/'' @ matchDirectory
         else directory_of file)"

text \<open>
  \<open>doFileInclude\<close> and the loop over its matches. The recursion of the source is bounded
  by the call stack alone. The model takes the number of nested calls of \<open>doFileInclude\<close>
  that the stack has room for; a call for which there is no room throws a \<open>RangeError\<close>,
  which is the result \<open>None\<close>. Where exactly an engine gives up is its own affair; in
  the model it is at the call. The nested call is made inside the \<open>try\<close> block of the
  calling \<open>doFileInclude\<close>: its \<open>RangeError\<close> ends the loop of the caller and is handled
  by the \<open>catch\<close> block of the caller, like a read that threw. A call for which there is
  room always returns. The loop returns how it ended, together with \<open>contents\<close> and the
  state.
\<close>

fun doFileInclude ::
  "nat \<Rightarrow> bool \<Rightarrow> (string \<Rightarrow> errno + string) \<Rightarrow> include_arg \<Rightarrow> bool option \<Rightarrow>
   state \<Rightarrow> (string \<times> state) option"
and include_matches ::
  "nat \<Rightarrow> bool \<Rightarrow> (string \<Rightarrow> errno + string) \<Rightarrow> include_arg \<Rightarrow> dmatch list \<Rightarrow>
   string \<Rightarrow> state \<Rightarrow> outcome \<times> string \<times> state" where
  "doFileInclude 0 recursive read file insertNotFound st = None"
| "doFileInclude (Suc depth) recursive read file insertNotFound st =
     (let insertNotFound' = (insertNotFound \<noteq> Some False)
      in case read (directory_of file @ ''/'' @ filename_of file) of
           Inl error \<Rightarrow> Some (file_not_found file insertNotFound' [] st)
         | Inr contents \<Rightarrow>
             (case include_matches depth recursive read file (getMatches contents) contents st of
                (Completed, contents', st') \<Rightarrow> Some (contents', st')
              | (Threw error, contents', st') \<Rightarrow>
                  Some (file_not_found file insertNotFound' contents' st')
              | (StackExhausted, contents', st') \<Rightarrow>
                  Some (file_not_found file insertNotFound' contents' st')))"
| "include_matches depth recursive read file [] contents st = (Completed, contents, st)"
| "include_matches depth recursive read file (match # rest) contents st =
     (if recursive = True
      then
        (case doFileInclude depth recursive read (Match (match_directory file) match) None st of
           None \<Rightarrow> (StackExhausted, contents, st)
         | Some (matchContents, st') \<Rightarrow>
             include_matches depth recursive read file rest
               (replace contents (dmatch.string match) matchContents) st')
      else
        (case read (match_directory file @ ''/'' @ dmatch.filename match) of
           Inl error \<Rightarrow> (Threw error, contents, st)
         | Inr matchContents \<Rightarrow>
             include_matches depth recursive read file rest
               (replace contents (dmatch.string match) matchContents) st))"

text \<open>
  What the loop obtains for a match: with recursion the result of the nested call of
  \<open>doFileInclude\<close> for the match, to which its directory has been added; without
  recursion the contents of the file that the match refers to. \<open>resolves\<close> says that this
  is the text \<open>matchContents\<close>, and that the state is \<open>st'\<close> afterwards.
\<close>

definition resolves ::
  "nat \<Rightarrow> bool \<Rightarrow> (string \<Rightarrow> errno + string) \<Rightarrow> include_arg \<Rightarrow> dmatch \<Rightarrow> state \<Rightarrow>
   string \<Rightarrow> state \<Rightarrow> bool" where
  "resolves depth recursive read file match st matchContents st' =
     (if recursive = True
      then doFileInclude depth recursive read (Match (match_directory file) match) None st
             = Some (matchContents, st')
      else read (match_directory file @ ''/'' @ dmatch.filename match) = Inr matchContents \<and>
           st' = st)"

section \<open>Writing the results\<close>

text \<open>The destination path computed at the start of the \<open>try\<close> block of \<open>writeFiles\<close>.\<close>

definition outputPath :: "bool \<Rightarrow> source_file \<Rightarrow> string" where
  "outputPath omitSourceParent' file =
     (if omitSourceParent' \<noteq> True
      then source_file.directory file @ ''/'' @ source_file.filename file
      else source_file.filename file)"

text \<open>
  In the \<open>catch\<close> block of \<open>writeFiles\<close> the name \<open>path\<close> is the module of that name, the
  variable of the \<open>try\<close> block being out of scope. The directory to create is computed
  in the \<open>try\<close> block by the statements that make up \<open>getDirectory\<close>. The call of
  \<open>doFileInclude\<close> stands in front of the \<open>try\<close> block: when the stack has no room for
  it, nothing catches the error and the run ends there, which is the result \<open>None\<close>.
\<close>

definition cannot_write :: "commander \<Rightarrow> state \<Rightarrow> state" where
  "cannot_write cmd st =
     st\<lparr>log := log st @ [(ERROR, ''Cannot write file: '' @ destination cmd @ ''/[object Object]'')],
        errors := errors st + 1\<rparr>"

fun writeFiles ::
  "'fs node \<Rightarrow> commander \<Rightarrow> nat \<Rightarrow> source_file list \<Rightarrow> 'fs \<Rightarrow> state \<Rightarrow> ('fs \<times> state) option" where
  "writeFiles os cmd depth [] fs st = Some (fs, st)"
| "writeFiles os cmd depth (file # files) fs st =
     (case doFileInclude depth (includeRecursive cmd) (readFileSync os fs) (File file) None st of
        None \<Rightarrow> None
      | Some (contents, st1) \<Rightarrow>
          (let path = outputPath (omitSourceParent cmd) file;
               directory = getDirectory path
           in case mkdirp_sync os fs (destination cmd @ ''/'' @ directory) of
                (False, fs1) \<Rightarrow> writeFiles os cmd depth files fs1 (cannot_write cmd st1)
              | (True, fs1) \<Rightarrow>
                  (case writeFileSync os fs1 (destination cmd @ ''/'' @ path) contents of
                     (False, fs2) \<Rightarrow> writeFiles os cmd depth files fs2 (cannot_write cmd st1)
                   | (True, fs2) \<Rightarrow>
                       writeFiles os cmd depth files fs2 (st1\<lparr>written := written st1 + 1\<rparr>))))"

text \<open>Decimal digits of a counter, for the last line of the report.\<close>

function show_nat :: "nat \<Rightarrow> string" where
  "show_nat n =
     (if n < 10 then [''0123456789'' ! n]
      else show_nat (n div 10) @ [''0123456789'' ! (n mod 10)])"
  by pat_completeness auto
termination
  by (relation "measure id") auto

text \<open>
  \<open>init\<close>, from the list returned by \<open>findFiles\<close> on: scanning, classification, the
  writing of the roots and the report.
\<close>

definition init ::
  "'fs node \<Rightarrow> commander \<Rightarrow> nat \<Rightarrow> string list \<Rightarrow> 'fs \<Rightarrow> state \<Rightarrow> ('fs \<times> state) option" where
  "init os cmd depth foundFiles fs st =
     (let (hasPattern, st1) =
            (if foundFiles \<noteq> []
             then checkForPattern (readFileSync os fs) (dirname os) foundFiles st
             else ([], st));
          filesNotIncluded = (if hasPattern \<noteq> [] then removeIncludedFiles hasPattern else [])
      in case (if filesNotIncluded \<noteq> []
               then writeFiles os cmd depth filesNotIncluded fs st1
               else Some (fs, st1)) of
           None \<Rightarrow> None
         | Some (fs', st2) \<Rightarrow>
             Some (fs',
                   st2\<lparr>log := log st2 @
                     [(INFO, ''Files written: '' @ show_nat (written st2) @
                             '', File errors: '' @ show_nat (errors st2))]\<rparr>))"

section \<open>The matches of a text and the text between them\<close>

text \<open>
  The layout of a text: for each match of the pattern, in the order in which \<open>getMatches\<close>
  finds them, the text between the match in front of it and the match itself, with the
  path that the match captures; and the text behind the last match.
\<close>

function layout :: "string \<Rightarrow> (string \<times> string) list \<times> string" where
  "layout s =
     (case search s of
        None \<Rightarrow> ([], s)
      | Some (skipped, capture, rest) \<Rightarrow>
          (case layout rest of (pieces, tail) \<Rightarrow> ((skipped, capture) # pieces, tail)))"
  by pat_completeness auto
termination
proof (relation "measure length")
  show "wf (measure length)"
    by simp
next
  fix s :: string and t skipped u capture rest
  assume "search s = Some t" and "(skipped, u) = t" and "(capture, rest) = u"
  then have "search s = Some (skipped, capture, rest)"
    by simp
  from search_decomp [OF this] have "length rest < length s"
    by (simp add: length_directive)
  then show "(rest, s) \<in> measure length"
    by simp
qed

declare layout.simps [simp del]

section \<open>Replacement at the place of each match\<close>

text \<open>
  The specification asks that the matches of a file and the substrings replaced
  correspond one to one by position. The definitions of this section say what that
  means: they are not taken from the source, and are compared with its loop further
  down. All of them work on the layout of a text, so on the matches that \<open>getMatches\<close>
  finds; on a line with several directives that is one match, which runs from the first
  \<open>@@include('\<close> to the last \<open>')\<close> of the line.
\<close>

text \<open>
  The text with the pieces of a layout, and \<open>fragment path\<close> at the place of each match.
  With \<open>directive\<close> for \<open>fragment\<close> it is the text that has the layout.
\<close>

fun splice :: "(string \<Rightarrow> string) \<Rightarrow> (string \<times> string) list \<Rightarrow> string \<Rightarrow> string" where
  "splice fragment [] tail = tail"
| "splice fragment ((gap, path') # pieces) tail =
     gap @ fragment path' @ splice fragment pieces tail"

text \<open>
  A replacement text that \<open>String.prototype.replace\<close> inserts as it is: it holds none of
  the patterns \<open>$$\<close>, \<open>$&\<close>, \<open>$`\<close> and \<open>$'\<close>.
\<close>

fun literal :: "string \<Rightarrow> bool" where
  "literal [] = True"
| "literal [c] = True"
| "literal (c # d # r) =
     (\<not> (c = CHR ''$'' \<and> (d = CHR ''$'' \<or> d = CHR ''&'' \<or> d = CHR 0x60 \<or> d = quote)) \<and>
      literal (d # r))"

text \<open>
  Every match is, at its turn, the first occurrence of its literal text. At the turn of
  a match the text in front of it is \<open>front\<close>: the pieces passed so far with the fragments
  of the earlier matches in their places. The first occurrence of the literal text in
  that text followed by the match is the match itself, and the fragment of the match is
  literal.
\<close>

fun in_place :: "(string \<Rightarrow> string) \<Rightarrow> string \<Rightarrow> (string \<times> string) list \<Rightarrow> bool" where
  "in_place fragment front [] = True"
| "in_place fragment front ((gap, path') # pieces) =
     (find_first (directive path') (front @ gap @ directive path') = Some (front @ gap, []) \<and>
      literal (fragment path') \<and>
      in_place fragment (front @ gap @ fragment path') pieces)"





section \<open>A small file system for concrete runs\<close>

text \<open>
  A read-only file system given by a table: a path is a file with contents, or a read
  of it throws the given error; a path that is not in the table does not exist.
\<close>

definition disk :: "(string \<times> (errno + string)) list \<Rightarrow> string \<Rightarrow> errno + string" where
  "disk table path' = (case map_of table path' of None \<Rightarrow> Inl ENOENT | Some r \<Rightarrow> r)"

text \<open>
  A platform over such a file system that records the files written, in order:
  directories can always be created and files always written.
\<close>

definition recorder ::
  "(string \<Rightarrow> errno + string) \<Rightarrow> ((string \<times> string) list) node" where
  "recorder read =
     \<lparr>readFileSync = (\<lambda>fs. read),
      mkdirp_sync = (\<lambda>fs dir. (True, fs)),
      writeFileSync = (\<lambda>fs file contents. (True, fs @ [(file, contents)])),
      dirname = getDirectory\<rparr>"

text \<open>
  Concrete inputs: scanned files, file systems, contents, the default options and the
  state at the start of a run.
\<close>

definition example_files :: "source_file list" where
  "example_files =
     [\<lparr>directory = ''src'', filename = ''index.html'',
        matches = [\<lparr>string = directive ''partials/header.html'',
                    filename = ''partials/header.html''\<rparr>]\<rparr>,
      \<lparr>directory = ''src/partials'', filename = ''header.html'',
        matches = [\<lparr>string = directive ''logo.html'', filename = ''logo.html''\<rparr>]\<rparr>,
      \<lparr>directory = ''src/blog'', filename = ''header.html'',
        matches = [\<lparr>string = directive ''nav.html'', filename = ''nav.html''\<rparr>]\<rparr>]"

definition site :: "string \<Rightarrow> errno + string" where
  "site = disk [(''src/index.html'', Inr (''<body>'' @ directive ''partials/header.html'' @ ''</body>'')),
                (''src/partials/header.html'', Inr ''<h1>Hi</h1>'')]"

definition defaults :: commander where
  "defaults = \<lparr>destination = ''build'', omitSourceParent = True, includeRecursive = True\<rparr>"

definition start :: state where
  "start = \<lparr>written = 0, errors = 0, log = []\<rparr>"

definition folder :: "string \<Rightarrow> errno + string" where
  "folder = disk [(''src/secret.html'', Inl EACCES),
                  (''src/b.html'', Inr (directive ''c.html'')),
                  (''src/sub.html'', Inl EISDIR),
                  (''src/a.html'', Inr (directive ''c.html''))]"



definition lonely :: "string \<Rightarrow> errno + string" where
  "lonely = disk [(''src/index.html'', Inr (''A'' @ directive ''missing.html'' @ ''B''))]"

definition index :: source_file where
  "index = \<lparr>directory = ''src'', filename = ''index.html'',
             matches = [\<lparr>string = directive ''missing.html'', filename = ''missing.html''\<rparr>]\<rparr>"


definition two_on_a_line :: string where
  "two_on_a_line = directive ''a.html'' @ '' '' @ directive ''b.html''"

definition letter :: string where
  "letter = ''<p>'' @ directive (''head.html'' @ directive_close @ ''</p>'') @
            [CHR 0x0A] @ directive ''foot.html''"






definition shared_table :: "(string \<times> (errno + string)) list" where
  "shared_table =
     [(''src/index.html'', Inr (directive ''a.html'' @ [CHR 0x0A] @ directive ''b.html'')),
      (''src/a.html'', Inr (''<div>'' @ directive ''b.html'' @ ''</div>'')),
      (''src/b.html'', Inr ''B'')]"

definition twice_table :: "(string \<times> (errno + string)) list" where
  "twice_table =
     [(''src/index.html'',
       Inr (''<a>'' @ directive ''x.html'' @ [CHR 0x0A] @ directive ''x.html'' @ ''<c>'')),
      (''src/x.html'', Inr (''['' @ directive ''z.html'' @ '']'')),
      (''src/z.html'', Inr ''Z'')]"

definition loop_table :: "(string \<times> (errno + string)) list" where
  "loop_table = [(''src/a.html'', Inr (''x'' @ directive ''a.html'' @ ''y''))]"

text \<open>The contents of the file that a path refers to in a directory; empty when it cannot be read.\<close>

definition raw_at :: "(string \<Rightarrow> errno + string) \<Rightarrow> string \<Rightarrow> string \<Rightarrow> string" where
  "raw_at read dir path' =
     (case read (dir @ ''/'' @ path') of Inl error \<Rightarrow> [] | Inr contents \<Rightarrow> contents)"

section \<open>Path segments\<close>

lemma split_not_Nil: "split sep s \<noteq> []"
  by (induction s) (auto split: list.splits)

lemma split_no_sep: "sep \<notin> set s \<Longrightarrow> split sep s = [s]"
  by (induction s) auto

lemma split_segments: "w \<in> set (split sep s) \<Longrightarrow> sep \<notin> set w"
proof (induction s arbitrary: w)
  case Nil
  then show ?case by simp
next
  case (Cons c cs)
  obtain v vs where sp: "split sep cs = v # vs"
    using split_not_Nil [of sep cs] by (cases "split sep cs") auto
  with Cons show ?case
    by (auto split: if_splits)
qed

lemma getFilename_no_slash: "CHR ''/'' \<notin> set (getFilename file)"
  unfolding getFilename_def
  using split_segments [of "last (split CHR ''/'' file)" "CHR ''/''" "file"]
    last_in_set [OF split_not_Nil, of "CHR ''/''" "file"]
  by blast

lemma getFilename_plain: "CHR ''/'' \<notin> set file \<Longrightarrow> getFilename file = file"
  by (simp add: getFilename_def split_no_sep)

section \<open>Properties of the classifier\<close>

lemma remove_for_matches_filter:
  "remove_for_matches ms files =
   filter (\<lambda>file. \<forall>m \<in> set ms. getFilename (dmatch.filename m) \<noteq> source_file.filename file) files"
  by (induction ms arbitrary: files) (auto intro: filter_cong)

lemma remove_for_files_filter:
  "remove_for_files fs files =
   filter (\<lambda>file. \<forall>g \<in> set fs. \<forall>m \<in> set (matches g).
             getFilename (dmatch.filename m) \<noteq> source_file.filename file) files"
  by (induction fs arbitrary: files) (auto simp: remove_for_matches_filter intro: filter_cong)

lemma removeIncludedFiles_filter:
  "removeIncludedFiles files =
   filter (\<lambda>file. \<forall>g \<in> set files. \<forall>m \<in> set (matches g).
             getFilename (dmatch.filename m) \<noteq> source_file.filename file) files"
  by (simp add: removeIncludedFiles_def remove_for_files_filter)

section \<open>Properties of the scan\<close>

lemma checkForPattern_loop_acc:
  "checkForPattern_loop read dn files acc st =
   (acc @ fst (checkForPattern_loop read dn files [] st),
    snd (checkForPattern_loop read dn files [] st))"
proof (induction files arbitrary: acc)
  case Nil
  then show ?case by simp
next
  case (Cons f files)
  show ?case
  proof (cases "read f")
    case (Inl error)
    then show ?thesis
      using Cons.IH [of acc] by simp
  next
    case (Inr contents)
    then show ?thesis
      using Cons.IH [of "acc @ [\<lparr>directory = dn f, filename = getFilename f,
                                  matches = getMatches contents\<rparr>]"]
        Cons.IH [of "[\<lparr>directory = dn f, filename = getFilename f,
                       matches = getMatches contents\<rparr>]"]
        Cons.IH [of acc]
      by (simp add: Let_def)
  qed
qed

lemma checkForPattern_loop_scanned:
  "r \<in> set (fst (checkForPattern_loop read dn files acc st)) \<Longrightarrow>
   r \<in> set acc \<or>
   (\<exists>file \<in> set files. \<exists>contents. read file = Inr contents \<and> getMatches contents \<noteq> [] \<and>
      r = \<lparr>directory = dn file, filename = getFilename file, matches = getMatches contents\<rparr>)"
proof (induction files arbitrary: acc)
  case Nil
  then show ?case by simp
next
  case (Cons f files)
  show ?case
  proof (cases "read f")
    case (Inl error)
    with Cons.prems Cons.IH [of acc] show ?thesis
      by (auto split: if_splits)
  next
    case (Inr contents)
    show ?thesis
    proof (cases "getMatches contents = []")
      case True
      with Inr Cons.prems Cons.IH [of acc] show ?thesis
        by auto
    next
      case False
      with Inr Cons.prems
        Cons.IH [of "acc @ [\<lparr>directory = dn f, filename = getFilename f,
                              matches = getMatches contents\<rparr>]"]
      show ?thesis
        by (auto simp: Let_def)
    qed
  qed
qed

lemma checkForPattern_scanned:
  assumes "f \<in> set (fst (checkForPattern read dn files st))"
  shows "\<exists>file \<in> set files. \<exists>contents. read file = Inr contents \<and> getMatches contents \<noteq> [] \<and>
           f = \<lparr>directory = dn file, filename = getFilename file, matches = getMatches contents\<rparr>"
  using checkForPattern_loop_scanned [of f read dn files "[]" st] assms
  by (simp add: checkForPattern_def)

lemma checkForPattern_filename_segment:
  "f \<in> set (fst (checkForPattern read dn files st)) \<Longrightarrow> CHR ''/'' \<notin> set (source_file.filename f)"
  using checkForPattern_scanned [of f read dn files st] getFilename_no_slash
  by fastforce

lemma checkForPattern_loop_drop:
  assumes "read file = Inr contents" and "getMatches contents = []"
  shows "checkForPattern_loop read dn (front @ file # back) acc st =
         checkForPattern_loop read dn (front @ back) acc st"
  using assms by (induction front arbitrary: acc) (auto simp: Let_def split: sum.splits)

lemma checkForPattern_loop_skip:
  assumes "read file = Inl error" and "error \<noteq> EISDIR"
  shows "checkForPattern_loop read dn (front @ file # back) acc st =
         checkForPattern_loop read dn (front @ back) acc st"
  using assms by (induction front arbitrary: acc) (auto simp: Let_def split: sum.splits)

lemma checkForPattern_loop_no_EISDIR:
  assumes "\<forall>file \<in> set files. read file \<noteq> Inl EISDIR"
  shows "snd (checkForPattern_loop read dn files acc st) = st"
  using assms by (induction files arbitrary: acc) (auto simp: Let_def split: sum.splits)

lemma checkForPattern_loop_EISDIR:
  assumes "\<forall>file \<in> set front. read file \<noteq> Inl EISDIR" and "read dir = Inl EISDIR"
  shows "checkForPattern_loop read dn (front @ dir # back) acc st =
         (fst (checkForPattern_loop read dn front acc st),
          st\<lparr>log := log st @ [(ERROR, ''Cannot read the source directory'')]\<rparr>)"
  using assms by (induction front arbitrary: acc) (auto simp: Let_def split: sum.splits)

section \<open>Properties of the matcher\<close>

lemma getMatches_loop_acc:
  "getMatches_loop data lastIndex acc = (acc @ fst (getMatches_loop data lastIndex []), 0)"
proof (induction "length data - lastIndex" arbitrary: lastIndex acc rule: less_induct)
  case less
  show ?case
  proof (cases "exec data lastIndex")
    case (Pair r li)
    show ?thesis
    proof (cases r)
      case None
      with Pair have "li = 0"
        by (auto simp: exec_def split: if_splits option.splits)
      with Pair None show ?thesis
        by (subst (1 2) getMatches_loop.simps) simp
    next
      case (Some m)
      from exec_Some_advances [of data lastIndex m li] Pair Some
      have "length data - li < length data - lastIndex"
        by simp arith
      note IH = less [OF this]
      have l: "getMatches_loop data lastIndex acc = getMatches_loop data li (acc @ [m])"
        using Pair Some by (subst getMatches_loop.simps) simp
      have r: "getMatches_loop data lastIndex [] = getMatches_loop data li [m]"
        using Pair Some by (subst getMatches_loop.simps) simp
      show ?thesis
        unfolding l r using IH [of "acc @ [m]"] IH [of "[m]"] by simp
    qed
  qed
qed

text \<open>The search does not look behind \<open>lastIndex\<close>: the text in front of it plays no role.\<close>

lemma getMatches_loop_shift:
  "getMatches_loop (front @ data) (length front + lastIndex) acc =
   getMatches_loop data lastIndex acc"
proof (induction "length data - lastIndex" arbitrary: lastIndex acc rule: less_induct)
  case less
  have ex: "exec (front @ data) (length front + lastIndex) =
            (fst (exec data lastIndex),
             if fst (exec data lastIndex) = None then 0
             else length front + snd (exec data lastIndex))"
    by (auto simp: exec_def split: option.splits)
  show ?case
  proof (cases "exec data lastIndex")
    case (Pair r li)
    show ?thesis
    proof (cases r)
      case None
      with Pair have "li = 0"
        by (auto simp: exec_def split: if_splits option.splits)
      with Pair None ex show ?thesis
        by (subst (1 2) getMatches_loop.simps) simp
    next
      case (Some m)
      from exec_Some_advances [of data lastIndex m li] Pair Some
      have "length data - li < length data - lastIndex"
        by simp arith
      note IH = less [OF this]
      have l: "getMatches_loop (front @ data) (length front + lastIndex) acc =
               getMatches_loop (front @ data) (length front + li) (acc @ [m])"
        using Pair Some ex by (subst getMatches_loop.simps) simp
      have r: "getMatches_loop data lastIndex acc = getMatches_loop data li (acc @ [m])"
        using Pair Some by (subst getMatches_loop.simps) simp
      show ?thesis
        unfolding l r using IH [of "acc @ [m]"] by simp
    qed
  qed
qed

lemma getMatches_loop_first:
  assumes "search data = Some (skipped, capture, rest)"
  shows "getMatches_loop data 0 [] =
         getMatches_loop data (length (skipped @ directive capture))
           [\<lparr>string = directive capture, filename = capture\<rparr>]"
  using assms by (subst getMatches_loop.simps) (simp add: exec_def)

lemma getMatches_loop_rest:
  assumes "search data = Some (skipped, capture, rest)"
  shows "getMatches_loop data (length (skipped @ directive capture)) acc =
         getMatches_loop rest 0 acc"
proof -
  from search_decomp [OF assms]
  have d: "data = (skipped @ directive capture) @ rest"
    by simp
  show ?thesis
    unfolding d using getMatches_loop_shift [of "skipped @ directive capture" rest 0 acc]
    by simp
qed

lemma getMatches_Nil: "search data = None \<Longrightarrow> getMatches data = []"
  unfolding getMatches_def by (subst getMatches_loop.simps) (simp add: exec_def)

lemma getMatches_Cons:
  assumes "search data = Some (skipped, capture, rest)"
  shows "getMatches data = \<lparr>string = directive capture, filename = capture\<rparr> # getMatches rest"
  unfolding getMatches_def getMatches_loop_first [OF assms] getMatches_loop_rest [OF assms]
  by (subst getMatches_loop_acc) simp


section \<open>The destination path\<close>

text \<open>
  Claim C7: the destination path of a root is its \<open>filename\<close> when \<open>omitSourceParent\<close> is
  true, and its \<open>directory\<close> joined with its \<open>filename\<close> when it is false; for the root
  with directory \<open>src/pages\<close> and filename \<open>pages/index.html\<close> these are
  \<open>pages/index.html\<close> and \<open>src/pages/pages/index.html\<close>. On a platform where every write
  succeeds, \<open>writeFiles\<close> writes the resolved contents of a root to that path under the
  destination directory.
\<close>

theorem outputPath_omitSourceParent:
  "outputPath True file = source_file.filename file \<and>
   outputPath False file = source_file.directory file @ ''/'' @ source_file.filename file \<and>
   outputPath True \<lparr>directory = ''src/pages'', filename = ''pages/index.html'', matches = ms\<rparr>
     = ''pages/index.html'' \<and>
   outputPath False \<lparr>directory = ''src/pages'', filename = ''pages/index.html'', matches = ms\<rparr>
     = ''src/pages/pages/index.html'' \<and>
   (doFileInclude depth (includeRecursive cmd) read (File file) None st = Some (contents, st1) \<longrightarrow>
    writeFiles (recorder read) cmd depth [file] [] st =
      Some ([(destination cmd @ ''/'' @ outputPath (omitSourceParent cmd) file, contents)],
            st1\<lparr>written := written st1 + 1\<rparr>))"
  by (simp add: outputPath_def recorder_def)

theorem outputPath_omitSourceParent_witness:
  "doFileInclude 1 True (disk [(''src/pages/pages/index.html'', Inr ''<p>hello</p>'')])
     (File \<lparr>directory = ''src/pages'', filename = ''pages/index.html'', matches = []\<rparr>) None
     \<lparr>written = 0, errors = 0, log = []\<rparr>
   = Some (''<p>hello</p>'', \<lparr>written = 0, errors = 0, log = []\<rparr>) \<and>
   writeFiles (recorder (disk [(''src/pages/pages/index.html'', Inr ''<p>hello</p>'')]))
     \<lparr>destination = ''build'', omitSourceParent = True, includeRecursive = True\<rparr> 1
     [\<lparr>directory = ''src/pages'', filename = ''pages/index.html'', matches = []\<rparr>] []
     \<lparr>written = 0, errors = 0, log = []\<rparr>
   = Some ([(''build/pages/index.html'', ''<p>hello</p>'')],
           \<lparr>written = 1, errors = 0, log = []\<rparr>)"
proof -
  have run: "doFileInclude 1 True (disk [(''src/pages/pages/index.html'', Inr ''<p>hello</p>'')])
     (File \<lparr>directory = ''src/pages'', filename = ''pages/index.html'', matches = []\<rparr>) None
     \<lparr>written = 0, errors = 0, log = []\<rparr>
   = Some (''<p>hello</p>'', \<lparr>written = 0, errors = 0, log = []\<rparr>)"
    by code_simp
  from outputPath_omitSourceParent
    [of "\<lparr>directory = ''src/pages'', filename = ''pages/index.html'', matches = []\<rparr>" "[]" 1
        "\<lparr>destination = ''build'', omitSourceParent = True, includeRecursive = True\<rparr>"
        "disk [(''src/pages/pages/index.html'', Inr ''<p>hello</p>'')]"
        "\<lparr>written = 0, errors = 0, log = []\<rparr>" "''<p>hello</p>''"
        "\<lparr>written = 0, errors = 0, log = []\<rparr>"] run
  show ?thesis
    by simp
qed

section \<open>Files without directives\<close>

text \<open>
  Claim C8: for a file whose contents hold no include directive, \<open>doFileInclude\<close> returns
  the contents as they are, and leaves the counters and the log alone, in both modes and
  whatever the placeholder option.
\<close>

theorem doFileInclude_no_directive:
  assumes "read (directory_of file @ ''/'' @ filename_of file) = Inr contents"
    and "getMatches contents = []"
  shows "doFileInclude (Suc depth) recursive read file insertNotFound st = Some (contents, st)"
  using assms by simp

theorem doFileInclude_no_directive_witness:
  "disk [(''src/about.html'', Inr ''<p>@@include(about) us</p>'')]
     (directory_of (File \<lparr>directory = ''src'', filename = ''about.html'', matches = []\<rparr>) @ ''/'' @
      filename_of (File \<lparr>directory = ''src'', filename = ''about.html'', matches = []\<rparr>))
   = Inr ''<p>@@include(about) us</p>'' \<and>
   getMatches ''<p>@@include(about) us</p>'' = [] \<and>
   doFileInclude (Suc 0) True (disk [(''src/about.html'', Inr ''<p>@@include(about) us</p>'')])
     (File \<lparr>directory = ''src'', filename = ''about.html'', matches = []\<rparr>) None
     \<lparr>written = 0, errors = 0, log = []\<rparr>
   = Some (''<p>@@include(about) us</p>'', \<lparr>written = 0, errors = 0, log = []\<rparr>)"
proof -
  have r: "disk [(''src/about.html'', Inr ''<p>@@include(about) us</p>'')]
     (directory_of (File \<lparr>directory = ''src'', filename = ''about.html'', matches = []\<rparr>) @ ''/'' @
      filename_of (File \<lparr>directory = ''src'', filename = ''about.html'', matches = []\<rparr>))
   = Inr ''<p>@@include(about) us</p>''"
    by (simp add: disk_def)
  have m: "getMatches ''<p>@@include(about) us</p>'' = []"
    by code_simp
  from doFileInclude_no_directive
    [of "disk [(''src/about.html'', Inr ''<p>@@include(about) us</p>'')]"
        "File \<lparr>directory = ''src'', filename = ''about.html'', matches = []\<rparr>"
        "''<p>@@include(about) us</p>''" 0 True None "\<lparr>written = 0, errors = 0, log = []\<rparr>"] r m
  show ?thesis
    by simp
qed


section \<open>The classifier\<close>

text \<open>
  Claim C2: for files as the scan produces them (the \<open>filename\<close> is a last path
  segment), \<open>removeIncludedFiles\<close> returns exactly the subsequence of the files whose
  filename differs from the last path segment of every path referenced by a match of any
  file of the input. Directories play no role: of two files with the same filename in
  different directories either both stay or both go.
\<close>

theorem removeIncludedFiles_last_segment:
  assumes "\<forall>f \<in> set files. CHR ''/'' \<notin> set (source_file.filename f)"
  shows "removeIncludedFiles files =
         filter (\<lambda>file. \<forall>g \<in> set files. \<forall>m \<in> set (matches g).
                   getFilename (dmatch.filename m) \<noteq> getFilename (source_file.filename file)) files
       \<and> (\<forall>f \<in> set files. \<forall>f' \<in> set files.
            source_file.filename f = source_file.filename f' \<longrightarrow>
            (f \<in> set (removeIncludedFiles files) \<longleftrightarrow> f' \<in> set (removeIncludedFiles files)))"
proof -
  have "removeIncludedFiles files =
         filter (\<lambda>file. \<forall>g \<in> set files. \<forall>m \<in> set (matches g).
                   getFilename (dmatch.filename m) \<noteq> getFilename (source_file.filename file)) files"
    unfolding removeIncludedFiles_filter
  proof (intro filter_cong refl)
    fix x
    assume "x \<in> set files"
    with assms have e: "getFilename (source_file.filename x) = source_file.filename x"
      by (simp add: getFilename_plain)
    show "(\<forall>g \<in> set files. \<forall>m \<in> set (matches g).
             getFilename (dmatch.filename m) \<noteq> source_file.filename x) =
          (\<forall>g \<in> set files. \<forall>m \<in> set (matches g).
             getFilename (dmatch.filename m) \<noteq> getFilename (source_file.filename x))"
      unfolding e by (rule refl)
  qed
  moreover have "\<forall>f \<in> set files. \<forall>f' \<in> set files.
            source_file.filename f = source_file.filename f' \<longrightarrow>
            (f \<in> set (removeIncludedFiles files) \<longleftrightarrow> f' \<in> set (removeIncludedFiles files))"
    unfolding removeIncludedFiles_filter by simp
  ultimately show ?thesis
    by simp
qed

theorem removeIncludedFiles_last_segment_witness:
  "list_all (\<lambda>f. CHR ''/'' \<notin> set (source_file.filename f)) example_files \<and>
   removeIncludedFiles example_files = [hd example_files]"
proof -
  have h: "\<forall>f \<in> set example_files. CHR ''/'' \<notin> set (source_file.filename f)"
    by code_simp
  from removeIncludedFiles_last_segment [OF h]
  have "removeIncludedFiles example_files =
         filter (\<lambda>file. \<forall>g \<in> set example_files. \<forall>m \<in> set (matches g).
                   getFilename (dmatch.filename m) \<noteq> getFilename (source_file.filename file))
           example_files"
    by (rule conjunct1)
  also have "\<dots> = [hd example_files]"
    by code_simp
  finally show ?thesis
    using h by (simp add: list_all_iff)
qed

section \<open>The scan\<close>

lemma checkForPattern_Nil: "checkForPattern read dn [] st = ([], st)"
  by (simp add: checkForPattern_def)

lemma checkForPattern_matches:
  "r \<in> set (fst (checkForPattern read dn files st)) \<Longrightarrow> matches r \<noteq> []"
  using checkForPattern_scanned [of r read dn files st] by auto

lemma init_guard:
  "init os cmd depth found fs st =
     (let (hasPattern, st1) = checkForPattern (readFileSync os fs) (dirname os) found st;
          filesNotIncluded = (if hasPattern \<noteq> [] then removeIncludedFiles hasPattern else [])
      in case (if filesNotIncluded \<noteq> []
               then writeFiles os cmd depth filesNotIncluded fs st1
               else Some (fs, st1)) of
           None \<Rightarrow> None
         | Some (fs', st2) \<Rightarrow>
             Some (fs',
                   st2\<lparr>log := log st2 @
                     [(INFO, ''Files written: '' @ show_nat (written st2) @
                             '', File errors: '' @ show_nat (errors st2))]\<rparr>))"
  by (cases "found = []") (simp_all add: init_def checkForPattern_Nil)

lemma init_scan:
  assumes "checkForPattern (readFileSync os fs) (dirname os) found st =
           checkForPattern (readFileSync os fs) (dirname os) found' st"
  shows "init os cmd depth found fs st = init os cmd depth found' fs st"
  unfolding init_guard assms by (rule refl)

text \<open>
  Claim C9: a discovered candidate whose contents hold no include directive is dropped
  by the scan. The result of the scan, and with it the whole run (the files written, the
  counters and the log), is the same as if the candidate had not been discovered, and
  every file the scan hands to the classifier has at least one match.
\<close>

theorem directive_free_candidate_dropped:
  assumes "readFileSync os fs file = Inr contents" and "getMatches contents = []"
  shows "checkForPattern (readFileSync os fs) (dirname os) (front @ file # back) st =
         checkForPattern (readFileSync os fs) (dirname os) (front @ back) st
       \<and> (\<forall>r \<in> set (fst (checkForPattern (readFileSync os fs) (dirname os)
                              (front @ file # back) st)). matches r \<noteq> [])
       \<and> init os cmd depth (front @ file # back) fs st = init os cmd depth (front @ back) fs st"
proof -
  have scan: "checkForPattern (readFileSync os fs) (dirname os) (front @ file # back) st =
              checkForPattern (readFileSync os fs) (dirname os) (front @ back) st"
    unfolding checkForPattern_def using assms by (rule checkForPattern_loop_drop)
  from scan
  have "init os cmd depth (front @ file # back) fs st = init os cmd depth (front @ back) fs st"
    by (rule init_scan)
  with scan checkForPattern_matches show ?thesis
    by blast
qed

theorem directive_free_candidate_dropped_witness:
  "readFileSync (recorder site) [] ''src/partials/header.html'' = Inr ''<h1>Hi</h1>'' \<and>
   getMatches ''<h1>Hi</h1>'' = [] \<and>
   init (recorder site) defaults 2 [''src/index.html'', ''src/partials/header.html''] [] start =
     Some ([(''build/index.html'', ''<body><h1>Hi</h1></body>'')],
           \<lparr>written = 1, errors = 0, log = [(INFO, ''Files written: 1, File errors: 0'')]\<rparr>)"
proof -
  have r: "readFileSync (recorder site) [] ''src/partials/header.html'' = Inr ''<h1>Hi</h1>''"
    by code_simp
  have m: "getMatches ''<h1>Hi</h1>'' = []"
    by code_simp
  have run: "init (recorder site) defaults 2 [''src/index.html''] [] start =
     Some ([(''build/index.html'', ''<body><h1>Hi</h1></body>'')],
           \<lparr>written = 1, errors = 0, log = [(INFO, ''Files written: 1, File errors: 0'')]\<rparr>)"
    by code_simp
  from directive_free_candidate_dropped
    [of "recorder site" "[]" "''src/partials/header.html''" "''<h1>Hi</h1>''"
        "[''src/index.html'']" "[]" "start" "defaults" 2] r m
  have "init (recorder site) defaults 2 [''src/index.html'', ''src/partials/header.html''] [] start =
        init (recorder site) defaults 2 [''src/index.html''] [] start"
    by simp
  with r m run show ?thesis
    by simp
qed

text \<open>
  Claim C6: (as amended) when the read of a discovered candidate throws \<open>EISDIR\<close>, the
  candidate being a directory, the error is logged and the scan stops: no later candidate
  is scanned, and the result holds the files collected before it. A candidate whose read
  fails with any other error is skipped, and the scan goes on with the next candidate.
\<close>

theorem checkForPattern_EISDIR_stops:
  assumes "\<forall>file \<in> set front. read file \<noteq> Inl EISDIR" and "read dir = Inl EISDIR"
  shows "fst (checkForPattern read dn (front @ dir # back) st) =
           fst (checkForPattern read dn front st)
       \<and> log (snd (checkForPattern read dn (front @ dir # back) st)) =
           log st @ [(ERROR, ''Cannot read the source directory'')]
       \<and> (read file = Inl error \<and> error \<noteq> EISDIR \<longrightarrow>
            checkForPattern read dn (before @ file # behind) st =
            checkForPattern read dn (before @ behind) st)"
  using checkForPattern_loop_EISDIR [OF assms, of dn "back" "[]" st]
    checkForPattern_loop_skip [of read "file" error dn "before" "behind" "[]" st]
  by (simp add: checkForPattern_def)

theorem checkForPattern_counterexample:
  "folder ''src/secret.html'' = Inl EACCES \<and> folder ''src/sub.html'' = Inl EISDIR \<and>
   checkForPattern folder getDirectory
     [''src/secret.html'', ''src/b.html'', ''src/sub.html'', ''src/a.html''] start =
   ([\<lparr>directory = ''src'', filename = ''b.html'',
       matches = [\<lparr>string = directive ''c.html'', filename = ''c.html''\<rparr>]\<rparr>],
    \<lparr>written = 0, errors = 0, log = [(ERROR, ''Cannot read the source directory'')]\<rparr>)"
  by code_simp

theorem checkForPattern_EISDIR_stops_witness:
  "folder ''src/b.html'' \<noteq> Inl EISDIR \<and>
   folder ''src/sub.html'' = Inl EISDIR \<and>
   folder ''src/secret.html'' = Inl EACCES \<and> EACCES \<noteq> EISDIR \<and>
   fst (checkForPattern folder getDirectory [''src/b.html'', ''src/sub.html'', ''src/a.html''] start)
     = fst (checkForPattern folder getDirectory [''src/b.html''] start) \<and>
   log (snd (checkForPattern folder getDirectory
               [''src/b.html'', ''src/sub.html'', ''src/a.html''] start))
     = [(ERROR, ''Cannot read the source directory'')] \<and>
   checkForPattern folder getDirectory [''src/secret.html'', ''src/a.html''] start =
   checkForPattern folder getDirectory [''src/a.html''] start"
proof -
  have h1: "\<forall>file \<in> set [''src/b.html'']. folder file \<noteq> Inl EISDIR"
    by code_simp
  have h2: "folder ''src/sub.html'' = Inl EISDIR"
    by code_simp
  have h3: "folder ''src/secret.html'' = Inl EACCES"
    by code_simp
  from checkForPattern_EISDIR_stops
    [OF h1 h2, of getDirectory "[''src/a.html'']" "start" "''src/secret.html''" EACCES "[]"
       "[''src/a.html'']"] h1 h2 h3
  show ?thesis
    by (simp add: start_def)
qed

section \<open>Properties of the replacement\<close>

lemma find_first_decomp:
  "find_first pat s = Some (front, rest) \<Longrightarrow> s = front @ pat @ rest"
  by (induction s arbitrary: front rest)
    (auto simp: strip_prefix_Some split: option.splits if_splits)

lemma strip_prefix_append: "strip_prefix pat (pat @ rest) = Some rest"
  by (simp add: strip_prefix_Some)

lemma find_first_leftmost:
  "\<exists>front rest. find_first pat (a @ pat @ b) = Some (front, rest) \<and> length front \<le> length a"
proof (induction a)
  case Nil
  show ?case
  proof (cases "pat @ b")
    case Nil
    then show ?thesis by simp
  next
    case (Cons c cs)
    have "strip_prefix pat (pat @ b) = Some b"
      by (rule strip_prefix_append)
    with Cons show ?thesis
      by simp
  qed
next
  case (Cons x a)
  then obtain front rest where
    f: "find_first pat (a @ pat @ b) = Some (front, rest)" and l: "length front \<le> length a"
    by blast
  show ?case
  proof (cases "strip_prefix pat (x # a @ pat @ b)")
    case None
    with f l show ?thesis by simp
  next
    case (Some r)
    then show ?thesis by simp
  qed
qed


lemma GetSubstitution_literal:
  "literal replacement \<Longrightarrow> GetSubstitution matched front rest replacement = replacement"
  by (induction matched front rest replacement rule: GetSubstitution.induct) auto

lemma find_first_None_iff: "find_first pat s = None \<longleftrightarrow> \<not> (\<exists>a b. s = a @ pat @ b)"
proof
  assume "find_first pat s = None"
  show "\<not> (\<exists>a b. s = a @ pat @ b)"
  proof
    assume "\<exists>a b. s = a @ pat @ b"
    then obtain a b where "s = a @ pat @ b"
      by blast
    with find_first_leftmost [of pat a b] \<open>find_first pat s = None\<close> show False
      by auto
  qed
next
  assume "\<not> (\<exists>a b. s = a @ pat @ b)"
  then show "find_first pat s = None"
    using find_first_decomp [of pat s] by (cases "find_first pat s") auto
qed

lemma find_first_least:
  assumes "find_first pat s = Some (a, b)" and "s = a' @ pat @ b'"
  shows "length a \<le> length a'"
  using find_first_leftmost [of pat a' b'] assms by auto

text \<open>
  When the first occurrence of a pattern in a text that ends with it is that end, it is
  also the first occurrence in any longer text.
\<close>

lemma find_first_extend:
  assumes "find_first pat (a @ pat) = Some (a, [])"
  shows "find_first pat (a @ pat @ b) = Some (a, b)"
proof -
  obtain front rest where
    f: "find_first pat (a @ pat @ b) = Some (front, rest)" and l: "length front \<le> length a"
    using find_first_leftmost by blast
  from find_first_decomp [OF f] have e: "a @ pat @ b = front @ pat @ rest" .
  have "length a \<le> length front"
  proof (rule ccontr)
    assume "\<not> length a \<le> length front"
    then have lt: "length front < length a"
      by simp
    have "take (length front + length pat) (a @ pat @ b) = front @ pat"
      unfolding e by simp
    moreover have "take (length front + length pat) (a @ pat @ b) =
                   take (length front + length pat) (a @ pat)"
      using lt by simp
    ultimately have "a @ pat = front @ pat @ drop (length front + length pat) (a @ pat)"
      by (metis append_assoc append_take_drop_id)
    from find_first_least [OF assms this] lt show False
      by simp
  qed
  with l have "length a = length front"
    by simp
  with e have "a = front \<and> pat @ b = pat @ rest"
    by (metis append_eq_append_conv)
  with f show ?thesis
    by simp
qed

text \<open>
  What \<open>in_place\<close> asks of a match, without reference to the search: the literal text
  occurs nowhere in front of the match.
\<close>

lemma find_first_own_place:
  "find_first pat (a @ pat) = Some (a, []) \<longleftrightarrow>
   (\<forall>a' b'. a @ pat = a' @ pat @ b' \<longrightarrow> length a \<le> length a')"
proof
  assume "find_first pat (a @ pat) = Some (a, [])"
  then show "\<forall>a' b'. a @ pat = a' @ pat @ b' \<longrightarrow> length a \<le> length a'"
    using find_first_least by blast
next
  assume least: "\<forall>a' b'. a @ pat = a' @ pat @ b' \<longrightarrow> length a \<le> length a'"
  obtain front rest where
    f: "find_first pat (a @ pat @ []) = Some (front, rest)" and l: "length front \<le> length a"
    using find_first_leftmost by blast
  from find_first_decomp [OF f] have e: "a @ pat = front @ pat @ rest"
    by simp
  with least have "length a \<le> length front"
    by blast
  with l have "length a = length front"
    by simp
  with e have "a = front \<and> pat = pat @ rest"
    by (metis append_eq_append_conv)
  with f show "find_first pat (a @ pat) = Some (a, [])"
    by simp
qed

lemma replace_in_place:
  assumes "find_first pat (a @ pat) = Some (a, [])" and "literal fragment"
  shows "replace (a @ pat @ b) pat fragment = a @ fragment @ b"
  using find_first_extend [OF assms(1), of b] assms(2)
  by (simp add: replace_def GetSubstitution_literal)

section \<open>Properties of the loop over the matches\<close>






section \<open>What the \<open>catch\<close> block and the replacement template do\<close>

text \<open>
  A call of \<open>doFileInclude\<close> for a match whose file cannot be read returns the empty
  string, whatever the placeholder option: \<open>contents\<close> is still empty when the \<open>catch\<close>
  block looks for the directive in it.
\<close>

lemma replace_empty: "pat \<noteq> [] \<Longrightarrow> replace [] pat replacement = []"
  by (simp add: replace_def)

lemma doFileInclude_unreadable_match:
  assumes "read (dir @ ''/'' @ dmatch.filename m) = Inl error" and "dmatch.string m \<noteq> []"
  shows "doFileInclude (Suc depth) recursive read (Match dir m) insertNotFound st =
           Some ([], st\<lparr>log := log st @ [(ERROR, ''File not found: '' @ dmatch.filename m)],
                        errors := errors st + 1\<rparr>)"
  using assms by (simp add: file_not_found_def ToString_def replace_empty Let_def)

text \<open>
  A call of \<open>doFileInclude\<close> for which the stack has room returns: every error inside it
  is caught. A file that includes itself is resolved until the stack has no room for the
  next call; the \<open>catch\<close> block of the innermost call that returns puts the placeholder
  in the place of its own directive and counts one error, and each call above it inserts
  what it is given.
\<close>

lemma doFileInclude_returns:
  "\<exists>out st'. doFileInclude (Suc depth) recursive read file insertNotFound st = Some (out, st')"
  by (simp add: Let_def file_not_found_def split: sum.splits prod.splits outcome.splits)

lemma doFileInclude_cycle:
  "doFileInclude 3 True (disk loop_table)
     (File \<lparr>directory = ''src'', filename = ''a.html'',
            matches = [\<lparr>string = directive ''a.html'', filename = ''a.html''\<rparr>]\<rparr>) None start =
   Some (''xxxFile not found: a.htmlyyy'',
         \<lparr>written = 0, errors = 1, log = [(ERROR, ''File not found: a.html'')]\<rparr>)"
  by code_simp

text \<open>
  The fragment passed to \<open>replace\<close> is read as a replacement template: a fragment that
  holds \<open>$$\<close>, \<open>$&\<close>, \<open>$`\<close> or \<open>$'\<close> is not inserted as it is.
\<close>

lemma replace_template:
  "replace ''a-b'' ''-'' ''$$'' = ''a$b'' \<and>
   replace ''a-b'' ''-'' ''<$&>'' = ''a<->b'' \<and>
   replace ''a-b'' ''-'' [CHR ''$'', CHR 0x60] = ''aab'' \<and>
   replace ''a-b'' ''-'' [CHR ''$'', quote] = ''abb'' \<and>
   replace ''a-b'' ''-'' ''$1$'' = ''a$1$b''"
  by code_simp

text \<open>
  Claim C1: a directive whose file cannot be read is to be replaced by the text
  \<open>File not found: <filename>\<close>. The run below is the file \<open>src/index.html\<close> with the
  contents \<open>A@@include('missing.html')B\<close> and no other file. With recursion the nested
  call has nothing in \<open>contents\<close> to replace and returns the empty string, so the
  directive vanishes, with the placeholder enabled as well as disabled; without recursion
  the directive stays as it is. The error is counted once in each case.
\<close>

theorem doFileInclude_missing_include:
  "doFileInclude 2 True lonely (File index) None start =
     Some (''AB'', \<lparr>written = 0, errors = 1, log = [(ERROR, ''File not found: missing.html'')]\<rparr>) \<and>
   doFileInclude 2 True lonely (File index) (Some False) start =
     Some (''AB'', \<lparr>written = 0, errors = 1, log = [(ERROR, ''File not found: missing.html'')]\<rparr>) \<and>
   doFileInclude 2 False lonely (File index) None start =
     Some (''A'' @ directive ''missing.html'' @ ''B'',
           \<lparr>written = 0, errors = 1, log = [(ERROR, ''File not found: index.html'')]\<rparr>)"
  by code_simp

section \<open>The matches of the pattern, declaratively\<close>

lemma single_line_simps [simp]:
  "single_line []"
  "single_line (c # p) = (\<not> line_terminator c \<and> single_line p)"
  by (simp_all add: single_line_def)

lemma directive_append: "directive p @ r = directive_open @ p @ directive_close @ r"
  by (simp add: directive_def)

lemma directive_inject: "directive p = directive q \<longleftrightarrow> p = q"
  by (simp add: directive_def)

lemma greedy_close_single_line:
  "greedy_close s = Some (capture, rest) \<Longrightarrow> single_line capture"
  by (induction s arbitrary: capture rest) (auto split: option.splits if_splits)

lemma greedy_close_longest:
  assumes "single_line p"
  shows "\<exists>capture rest. greedy_close (p @ directive_close @ r) = Some (capture, rest) \<and>
           length p \<le> length capture"
  using assms
proof (induction p)
  case Nil
  show ?case
  proof (cases "greedy_close (CHR '')'' # r)")
    case None
    then show ?thesis
      by (simp add: directive_close_def quote_def line_terminator_def)
  next
    case (Some t)
    then show ?thesis
      by (cases t) (simp add: directive_close_def quote_def line_terminator_def)
  qed
next
  case (Cons c p)
  then obtain capture rest where
    "greedy_close (p @ directive_close @ r) = Some (capture, rest)" "length p \<le> length capture"
    by auto
  with Cons.prems show ?case
    by simp
qed

lemma match_here_single_line:
  "match_here s = Some (capture, rest) \<Longrightarrow> single_line capture"
  by (auto simp: match_here_def dest: greedy_close_single_line split: option.splits)

lemma match_here_longest:
  assumes "single_line p"
  shows "\<exists>capture rest. match_here (directive p @ r) = Some (capture, rest) \<and>
           length p \<le> length capture"
  using greedy_close_longest [OF assms, of r]
  by (simp add: match_here_def directive_append strip_prefix_append)

lemma search_single_line:
  "search s = Some (skipped, capture, rest) \<Longrightarrow> single_line capture"
  by (induction s arbitrary: skipped capture rest)
    (auto dest: match_here_single_line split: option.splits)

lemma search_leftmost_longest:
  assumes "search s = Some (skipped, capture, rest)"
    and "s = a @ directive p @ b" and "single_line p"
  shows "length skipped \<le> length a \<and> (length a = length skipped \<longrightarrow> length p \<le> length capture)"
  using assms
proof (induction s arbitrary: skipped a)
  case Nil
  then show ?case by simp
next
  case (Cons c cs)
  show ?case
  proof (cases "match_here (c # cs)")
    case (Some t)
    with Cons.prems(1) have sk: "skipped = []" and t: "t = (capture, rest)"
      by (auto split: prod.splits)
    show ?thesis
    proof (cases a)
      case Nil
      with Cons.prems(2) have "match_here (directive p @ b) = Some (capture, rest)"
        using Some t by simp
      with match_here_longest [OF Cons.prems(3), of b] sk Nil show ?thesis
        by auto
    next
      case (Cons x xs)
      with sk show ?thesis by simp
    qed
  next
    case None
    with Cons.prems(1) obtain skipped' where
      s': "search cs = Some (skipped', capture, rest)" and sk: "skipped = c # skipped'"
      by (auto split: option.splits)
    have "a \<noteq> []"
    proof
      assume "a = []"
      with Cons.prems(2) have "match_here (directive p @ b) = None"
        using None by simp
      with match_here_longest [OF Cons.prems(3), of b] show False
        by auto
    qed
    then obtain a' where a: "a = c # a'" and cs: "cs = a' @ directive p @ b"
      using Cons.prems(2) by (cases a) auto
    from Cons.IH [OF s' cs Cons.prems(3)] sk a show ?thesis
      by simp
  qed
qed

lemma search_None:
  assumes "search s = None"
  shows "\<not> (\<exists>a p b. s = a @ directive p @ b \<and> single_line p)"
proof
  assume "\<exists>a p b. s = a @ directive p @ b \<and> single_line p"
  then obtain a p b where "s = a @ directive p @ b" and p: "single_line p"
    by blast
  with assms have "search (a @ directive p @ b) = None"
    by simp
  then show False
  proof (induction a)
    case Nil
    obtain c cs where e: "directive p @ b = c # cs"
      by (cases "directive p @ b") (simp_all add: directive_def directive_open_def)
    with Nil have "match_here (directive p @ b) = None"
      by (simp split: option.splits)
    with match_here_longest [OF p, of b] show ?case
      by auto
  next
    case (Cons x a)
    then show ?case
      by (simp split: option.splits prod.splits)
  qed
qed

lemma getMatches_Nil_iff:
  "getMatches content = [] \<longleftrightarrow> \<not> (\<exists>a p b. content = a @ directive p @ b \<and> single_line p)"
proof (cases "search content")
  case None
  with search_None [OF None] show ?thesis
    by (simp add: getMatches_Nil)
next
  case (Some t)
  obtain skipped capture rest where t: "t = (skipped, capture, rest)"
    by (cases t)
  from Some t search_decomp [of content skipped capture rest]
    search_single_line [of content skipped capture rest]
  have "content = skipped @ directive capture @ rest \<and> single_line capture"
    by simp
  then have "\<exists>a p b. content = a @ directive p @ b \<and> single_line p"
    by blast
  with Some t show ?thesis
    by (simp add: getMatches_Cons)
qed

lemma getMatches_first:
  assumes c: "content = a @ directive p @ b" and p: "single_line p"
    and least: "\<forall>a' p' b'. content = a' @ directive p' @ b' \<and> single_line p' \<longrightarrow>
                  length a \<le> length a' \<and> (length a' = length a \<longrightarrow> length p' \<le> length p)"
  shows "getMatches content = \<lparr>string = directive p, filename = p\<rparr> # getMatches b"
proof -
  from c p search_None [of content] obtain skipped capture rest where
    s: "search content = Some (skipped, capture, rest)"
    by (cases "search content") auto
  from search_decomp [OF s] have d: "content = skipped @ directive capture @ rest" .
  from search_single_line [OF s] have sl: "single_line capture" .
  from search_leftmost_longest [OF s c p]
  have 1: "length skipped \<le> length a" and 2: "length a = length skipped \<longrightarrow> length p \<le> length capture"
    by simp_all
  from least d sl
  have 3: "length a \<le> length skipped" and 4: "length skipped = length a \<longrightarrow> length capture \<le> length p"
    by blast+
  from 1 2 3 4 have la: "length a = length skipped" and lp: "length p = length capture"
    by simp_all
  from c d la have "a = skipped" and e: "directive p @ b = directive capture @ rest"
    by simp_all
  from e lp have "directive p = directive capture" and "b = rest"
    by (simp_all add: length_directive)
  with s \<open>a = skipped\<close> show ?thesis
    by (simp add: getMatches_Cons directive_inject)
qed

text \<open>
  What \<open>getMatches\<close> returns, without reference to the search: from left to right and
  without overlap, one match for each leftmost place where the text \<open>@@include('\<close>, a
  path without line terminator and \<open>')\<close> stand in a row; of the occurrences that start
  at that place the longest is taken, so that a match ends at the last \<open>')\<close> of its
  line. The search goes on behind the match. The pattern is left as it was found
  (\<open>lastIndex\<close> is 0 again), and there is no match exactly when the content holds no
  such occurrence.
\<close>

lemma getMatches_leftmost_longest:
  "snd (getMatches_loop content 0 []) = 0 \<and>
   (getMatches content = [] \<longleftrightarrow>
      \<not> (\<exists>a p b. content = a @ directive p @ b \<and> single_line p)) \<and>
   (content = a @ directive p @ b \<and> single_line p \<and>
    (\<forall>a' p' b'. content = a' @ directive p' @ b' \<and> single_line p' \<longrightarrow>
       length a \<le> length a' \<and> (length a' = length a \<longrightarrow> length p' \<le> length p)) \<longrightarrow>
    getMatches content = \<lparr>string = directive p, filename = p\<rparr> # getMatches b)"
proof (intro conjI impI)
  show "snd (getMatches_loop content 0 []) = 0"
    by (subst getMatches_loop_acc) simp
  show "getMatches content = [] \<longleftrightarrow>
      \<not> (\<exists>a p b. content = a @ directive p @ b \<and> single_line p)"
    by (rule getMatches_Nil_iff)
  assume "content = a @ directive p @ b \<and> single_line p \<and>
    (\<forall>a' p' b'. content = a' @ directive p' @ b' \<and> single_line p' \<longrightarrow>
       length a \<le> length a' \<and> (length a' = length a \<longrightarrow> length p' \<le> length p))"
  then show "getMatches content = \<lparr>string = directive p, filename = p\<rparr> # getMatches b"
    using getMatches_first [of content a p b] by blast
qed

lemma getMatches_letter:
  "letter = ''<p>'' @ directive (''head.html'' @ directive_close @ ''</p>'') @
            [CHR 0x0A] @ directive ''foot.html'' \<and>
   single_line (''head.html'' @ directive_close @ ''</p>'') \<and>
   getMatches letter =
     [\<lparr>string = directive (''head.html'' @ directive_close @ ''</p>''),
       filename = ''head.html'' @ directive_close @ ''</p>''\<rparr>,
      \<lparr>string = directive ''foot.html'', filename = ''foot.html''\<rparr>]"
proof -
  have c: "letter = ''<p>'' @ directive (''head.html'' @ directive_close @ ''</p>'') @
            [CHR 0x0A] @ directive ''foot.html''"
    by (simp add: letter_def)
  have sl: "single_line (''head.html'' @ directive_close @ ''</p>'')"
    by code_simp
  have s: "search letter = Some (''<p>'', ''head.html'' @ directive_close @ ''</p>'',
                                 [CHR 0x0A] @ directive ''foot.html'')"
    by code_simp
  have least: "\<forall>a' p' b'. letter = a' @ directive p' @ b' \<and> single_line p' \<longrightarrow>
       length ''<p>'' \<le> length a' \<and>
       (length a' = length ''<p>'' \<longrightarrow>
        length p' \<le> length (''head.html'' @ directive_close @ ''</p>''))"
    using search_leftmost_longest [OF s] by blast
  have rest: "getMatches ([CHR 0x0A] @ directive ''foot.html'') =
              [\<lparr>string = directive ''foot.html'', filename = ''foot.html''\<rparr>]"
    by code_simp
  from getMatches_leftmost_longest
    [of letter "''<p>''" "''head.html'' @ directive_close @ ''</p>''"
        "[CHR 0x0A] @ directive ''foot.html''"] c sl least
  have "getMatches letter =
          \<lparr>string = directive (''head.html'' @ directive_close @ ''</p>''),
           filename = ''head.html'' @ directive_close @ ''</p>''\<rparr> #
          getMatches ([CHR 0x0A] @ directive ''foot.html'')"
    by blast
  with c sl rest show ?thesis
    by simp
qed

text \<open>
  Claim C4: the matcher is to return one match for each occurrence of \<open>@@include('\<close>, a
  path and \<open>')\<close>, from left to right, with the path captured verbatim. It does so for
  directives on lines of their own. The content \<open>@@include('a.html') @@include('b.html')\<close>
  holds two directives on one line: the capture of the pattern is greedy and runs to the
  last \<open>')\<close> of the line, and \<open>getMatches\<close> returns a single match, the whole line,
  with the path \<open>a.html') @@include('b.html\<close>.
\<close>

theorem getMatches_two_on_a_line:
  "getMatches (directive ''a.html'' @ [CHR 0x0A] @ directive ''b.html'') =
     [\<lparr>string = directive ''a.html'', filename = ''a.html''\<rparr>,
      \<lparr>string = directive ''b.html'', filename = ''b.html''\<rparr>] \<and>
   two_on_a_line = directive ''a.html'' @ '' '' @ directive ''b.html'' \<and>
   getMatches two_on_a_line =
     [\<lparr>string = two_on_a_line,
       filename = ''a.html'' @ directive_close @ '' '' @ directive_open @ ''b.html''\<rparr>]"
  by code_simp

section \<open>Properties of the layout\<close>

lemma layout_None: "search s = None \<Longrightarrow> layout s = ([], s)"
  by (subst layout.simps) simp

lemma layout_Some:
  "search s = Some (skipped, capture, rest) \<Longrightarrow>
   layout s = ((skipped, capture) # fst (layout rest), snd (layout rest))"
  by (subst layout.simps) (simp split: prod.splits)

lemma layout_Cons:
  assumes "layout s = ((gap, capture) # pieces, tail)"
  shows "\<exists>rest. search s = Some (gap, capture, rest) \<and> s = gap @ directive capture @ rest \<and>
           layout rest = (pieces, tail)"
proof (cases "search s")
  case None
  with assms layout_None [OF None] show ?thesis by simp
next
  case (Some t)
  obtain skipped c rest where t: "t = (skipped, c, rest)"
    by (cases t)
  from Some t have s: "search s = Some (skipped, c, rest)"
    by simp
  from assms have "((skipped, c) # fst (layout rest), snd (layout rest)) = ((gap, capture) # pieces, tail)"
    unfolding layout_Some [OF s] .
  then have "skipped = gap" "c = capture" "layout rest = (pieces, tail)"
    by (simp_all add: prod_eq_iff)
  with s search_decomp [OF s] show ?thesis
    by blast
qed

lemma getMatches_layout:
  "getMatches s = map (\<lambda>(gap, capture). \<lparr>string = directive capture, filename = capture\<rparr>)
                    (fst (layout s))"
proof (induction s rule: layout.induct)
  case (1 s)
  show ?case
  proof (cases "search s")
    case None
    then show ?thesis
      by (simp add: getMatches_Nil layout_None)
  next
    case (Some t)
    obtain skipped capture rest where t: "t = (skipped, capture, rest)"
      by (cases t)
    from Some t have s: "search s = Some (skipped, capture, rest)"
      by simp
    have "getMatches rest = map (\<lambda>(gap, capture). \<lparr>string = directive capture, filename = capture\<rparr>)
                    (fst (layout rest))"
      by (rule 1 [of "(skipped, capture, rest)" skipped "(capture, rest)" capture rest,
                  OF s refl refl])
    then show ?thesis
      unfolding getMatches_Cons [OF s] layout_Some [OF s] by simp
  qed
qed

lemma layout_Nil: "layout r = ([], tail) \<Longrightarrow> r = tail \<and> getMatches r = []"
  using getMatches_layout [of r]
  by (cases "search r") (auto simp: layout_None layout_Some split: prod.splits)

text \<open>A text is its pieces, each followed by its directive, and its tail.\<close>

lemma layout_splice:
  "layout r = (pieces, tail) \<Longrightarrow> splice directive pieces tail = r"
proof (induction pieces arbitrary: r)
  case Nil
  with layout_Nil [of r tail] show ?case
    by simp
next
  case (Cons piece pieces)
  obtain gap capture where piece: "piece = (gap, capture)"
    by (cases piece)
  from layout_Cons [of r gap capture pieces tail] Cons.prems piece
  obtain rest where r: "r = gap @ directive capture @ rest" and l: "layout rest = (pieces, tail)"
    by auto
  from Cons.IH [OF l] r piece show ?case
    by simp
qed

section \<open>The loop over matches that are in place\<close>

text \<open>
  When each match of a text is, at its turn, the first occurrence of its literal text,
  the loop puts each fragment in the place of its match, in both modes. The state goes
  through the steps that resolve the matches, in the order of the matches.
\<close>

lemma include_matches_splice:
  assumes "layout r = (pieces, tail)"
    and "\<forall>(gap, path') \<in> set pieces. \<forall>st.
           resolves depth recursive read file \<lparr>string = directive path', filename = path'\<rparr> st
             (fragment path') (step path' st)"
    and "in_place fragment front pieces"
  shows "include_matches depth recursive read file (getMatches r) (front @ r) st =
           (Completed, front @ splice fragment pieces tail,
            fold (\<lambda>(gap, path'). step path') pieces st)"
  using assms
proof (induction pieces arbitrary: r front st)
  case Nil
  from layout_Nil [OF Nil(1)] have "r = tail" and "getMatches r = []"
    by blast+
  then show ?case
    by simp
next
  case (Cons piece pieces)
  obtain gap capture where piece: "piece = (gap, capture)"
    by (cases piece)
  from layout_Cons [of r gap capture pieces tail] Cons.prems(1) piece
  obtain rest where
    s: "search r = Some (gap, capture, rest)" and r: "r = gap @ directive capture @ rest" and
    l: "layout rest = (pieces, tail)"
    by auto
  let ?m = "\<lparr>string = directive capture, filename = capture\<rparr>"
  from Cons.prems(2) piece have
    res: "resolves depth recursive read file ?m st (fragment capture) (step capture st)"
    by simp
  from Cons.prems(2) have rest_res: "\<forall>(gap, path') \<in> set pieces. \<forall>st.
           resolves depth recursive read file \<lparr>string = directive path', filename = path'\<rparr> st
             (fragment path') (step path' st)"
    by simp
  from Cons.prems(3) piece have
    ff: "find_first (directive capture) ((front @ gap) @ directive capture) = Some (front @ gap, [])"
    and lit: "literal (fragment capture)"
    and ip: "in_place fragment ((front @ gap) @ fragment capture) pieces"
    by simp_all
  have rep: "replace (front @ r) (directive capture) (fragment capture) =
             ((front @ gap) @ fragment capture) @ rest"
    using replace_in_place [OF ff lit, of rest] by (simp add: r)
  have "include_matches depth recursive read file (getMatches r) (front @ r) st =
        include_matches depth recursive read file (getMatches rest)
          (replace (front @ r) (directive capture) (fragment capture)) (step capture st)"
    unfolding getMatches_Cons [OF s] using res by (auto simp: resolves_def)
  also have "\<dots> = (Completed, ((front @ gap) @ fragment capture) @ splice fragment pieces tail,
                    fold (\<lambda>(gap, path'). step path') pieces (step capture st))"
    unfolding rep by (rule Cons.IH [OF l rest_res ip])
  finally show ?case
    by (simp add: piece)
qed


section \<open>The order and the place of the replacements\<close>

text \<open>
  Claim C5: (as amended) the matches, which are what the pattern finds (on a line with
  several directives one match, from the first \<open>@@include('\<close> to the last \<open>')\<close>), are
  handled in the order in which they were found.
  The step for a match replaces one occurrence of the literal text of the match, the
  first one in the contents as they are by then, fragments of earlier matches included,
  by the fragment resolved for the match, provided this holds none of \<open>$$\<close>, \<open>$&\<close>,
  \<open>$`\<close> and \<open>$'\<close>; the text behind that occurrence is left as it is, later
  occurrences included, and contents that do not hold the literal text are left as they
  are. So the matches and the substrings replaced correspond one to one by position, also
  for several directives that are the same, whenever every match resolves to such a
  fragment and is, at its turn, the first occurrence of its literal text: then the loop
  turns the pieces of the text with its directives into the same pieces with the
  fragments, in either mode.
\<close>

theorem replacements_in_place:
  "(resolves depth recursive read file m st c st' \<and> literal c \<and>
    (\<forall>a' b'. a @ dmatch.string m @ b = a' @ dmatch.string m @ b' \<longrightarrow> length a \<le> length a') \<longrightarrow>
      include_matches depth recursive read file (m # rest) (a @ dmatch.string m @ b) st =
      include_matches depth recursive read file rest (a @ c @ b) st')
 \<and> (resolves depth recursive read file m st c st' \<and>
    (\<forall>a b. contents \<noteq> a @ dmatch.string m @ b) \<longrightarrow>
      include_matches depth recursive read file (m # rest) contents st =
      include_matches depth recursive read file rest contents st')
 \<and> (layout contents = (pieces, tail) \<and>
    (\<forall>(gap, path') \<in> set pieces. \<forall>st.
       resolves depth recursive read file \<lparr>string = directive path', filename = path'\<rparr> st
         (fragment path') (step path' st)) \<and>
    in_place fragment [] pieces \<longrightarrow>
      contents = splice directive pieces tail \<and>
      getMatches contents =
        map (\<lambda>(gap, path'). \<lparr>string = directive path', filename = path'\<rparr>) pieces \<and>
      include_matches depth recursive read file (getMatches contents) contents st =
        (Completed, splice fragment pieces tail, fold (\<lambda>(gap, path'). step path') pieces st))"
proof (intro conjI impI)
  assume a: "resolves depth recursive read file m st c st' \<and> literal c \<and>
    (\<forall>a' b'. a @ dmatch.string m @ b = a' @ dmatch.string m @ b' \<longrightarrow> length a \<le> length a')"
  obtain front behind where
    f: "find_first (dmatch.string m) (a @ dmatch.string m @ b) = Some (front, behind)" and
    l: "length front \<le> length a"
    using find_first_leftmost by blast
  from find_first_decomp [OF f] have e: "a @ dmatch.string m @ b = front @ dmatch.string m @ behind" .
  with a have "length a \<le> length front"
    by blast
  with l have "length a = length front"
    by simp
  with e have "a = front \<and> dmatch.string m @ b = dmatch.string m @ behind"
    by (metis append_eq_append_conv)
  with f have "find_first (dmatch.string m) (a @ dmatch.string m @ b) = Some (a, b)"
    by simp
  with a have "replace (a @ dmatch.string m @ b) (dmatch.string m) c = a @ c @ b"
    by (simp add: replace_def GetSubstitution_literal)
  with a show "include_matches depth recursive read file (m # rest) (a @ dmatch.string m @ b) st =
      include_matches depth recursive read file rest (a @ c @ b) st'"
    by (auto simp: resolves_def split: if_splits)
next
  assume a: "resolves depth recursive read file m st c st' \<and>
    (\<forall>a b. contents \<noteq> a @ dmatch.string m @ b)"
  then have "find_first (dmatch.string m) contents = None"
    unfolding find_first_None_iff by blast
  then have "replace contents (dmatch.string m) c = contents"
    by (simp add: replace_def)
  with a show "include_matches depth recursive read file (m # rest) contents st =
      include_matches depth recursive read file rest contents st'"
    by (auto simp: resolves_def split: if_splits)
next
  assume a: "layout contents = (pieces, tail) \<and>
    (\<forall>(gap, path') \<in> set pieces. \<forall>st.
       resolves depth recursive read file \<lparr>string = directive path', filename = path'\<rparr> st
         (fragment path') (step path' st)) \<and>
    in_place fragment [] pieces"
  then show "contents = splice directive pieces tail"
    using layout_splice [of contents pieces tail] by simp
next
  assume a: "layout contents = (pieces, tail) \<and>
    (\<forall>(gap, path') \<in> set pieces. \<forall>st.
       resolves depth recursive read file \<lparr>string = directive path', filename = path'\<rparr> st
         (fragment path') (step path' st)) \<and>
    in_place fragment [] pieces"
  then show "getMatches contents =
        map (\<lambda>(gap, path'). \<lparr>string = directive path', filename = path'\<rparr>) pieces"
    using getMatches_layout [of contents] by simp
next
  assume a: "layout contents = (pieces, tail) \<and>
    (\<forall>(gap, path') \<in> set pieces. \<forall>st.
       resolves depth recursive read file \<lparr>string = directive path', filename = path'\<rparr> st
         (fragment path') (step path' st)) \<and>
    in_place fragment [] pieces"
  then have l: "layout contents = (pieces, tail)"
    and r: "\<forall>(gap, path') \<in> set pieces. \<forall>st.
       resolves depth recursive read file \<lparr>string = directive path', filename = path'\<rparr> st
         (fragment path') (step path' st)"
    and i: "in_place fragment [] pieces"
    by simp_all
  from include_matches_splice [OF l r i, of st]
  show "include_matches depth recursive read file (getMatches contents) contents st =
        (Completed, splice fragment pieces tail, fold (\<lambda>(gap, path'). step path') pieces st)"
    by simp
qed

theorem replacements_counterexample:
  "getMatches (directive ''a.html'' @ [CHR 0x0A] @ directive ''b.html'') =
     [\<lparr>string = directive ''a.html'', filename = ''a.html''\<rparr>,
      \<lparr>string = directive ''b.html'', filename = ''b.html''\<rparr>] \<and>
   doFileInclude 1 False (disk shared_table)
     (File \<lparr>directory = ''src'', filename = ''index.html'',
            matches = [\<lparr>string = directive ''a.html'', filename = ''a.html''\<rparr>,
                       \<lparr>string = directive ''b.html'', filename = ''b.html''\<rparr>]\<rparr>) None start
   = Some (''<div>B</div>'' @ [CHR 0x0A] @ directive ''b.html'', start)"
  by code_simp

theorem replacements_in_place_witness:
  "disk twice_table ''src/x.html'' = Inr (''['' @ directive ''z.html'' @ '']'') \<and>
   literal (''['' @ directive ''z.html'' @ '']'') \<and>
   layout (''<a>'' @ directive ''x.html'' @ [CHR 0x0A] @ directive ''x.html'' @ ''<c>'') =
     ([(''<a>'', ''x.html''), ([CHR 0x0A], ''x.html'')], ''<c>'') \<and>
   in_place (raw_at (disk twice_table) ''src'') [] [(''<a>'', ''x.html''), ([CHR 0x0A], ''x.html'')] \<and>
   include_matches 0 False (disk twice_table)
     (File \<lparr>directory = ''src'', filename = ''index.html'', matches = []\<rparr>)
     [\<lparr>string = directive ''x.html'', filename = ''x.html''\<rparr>]
     (''<a>'' @ directive ''x.html'' @ [CHR 0x0A] @ directive ''x.html'' @ ''<c>'') start =
     (Completed,
      ''<a>'' @ (''['' @ directive ''z.html'' @ '']'') @ [CHR 0x0A] @ directive ''x.html'' @ ''<c>'',
      start) \<and>
   include_matches 0 False (disk twice_table)
     (File \<lparr>directory = ''src'', filename = ''index.html'', matches = []\<rparr>)
     [\<lparr>string = directive ''x.html'', filename = ''x.html''\<rparr>] ''<p>no directive</p>'' start =
     (Completed, ''<p>no directive</p>'', start) \<and>
   include_matches 0 False (disk twice_table)
     (File \<lparr>directory = ''src'', filename = ''index.html'', matches = []\<rparr>)
     (getMatches (''<a>'' @ directive ''x.html'' @ [CHR 0x0A] @ directive ''x.html'' @ ''<c>''))
     (''<a>'' @ directive ''x.html'' @ [CHR 0x0A] @ directive ''x.html'' @ ''<c>'') start =
     (Completed,
      ''<a>'' @ (''['' @ directive ''z.html'' @ '']'') @ [CHR 0x0A] @
      (''['' @ directive ''z.html'' @ '']'') @ ''<c>'',
      start)"
proof -
  let ?f = "File \<lparr>directory = ''src'', filename = ''index.html'', matches = []\<rparr>"
  let ?m = "\<lparr>string = directive ''x.html'', filename = ''x.html''\<rparr>"
  let ?x = "''['' @ directive ''z.html'' @ '']''"
  let ?b = "[CHR 0x0A] @ directive ''x.html'' @ ''<c>''"
  let ?c = "''<a>'' @ directive ''x.html'' @ [CHR 0x0A] @ directive ''x.html'' @ ''<c>''"
  let ?raw = "raw_at (disk twice_table) ''src''"
  let ?pieces = "[(''<a>'', ''x.html''), ([CHR 0x0A], ''x.html'')]"
  have x: "disk twice_table ''src/x.html'' = Inr ?x"
    by code_simp
  have lit: "literal ?x"
    by code_simp
  have l: "layout ?c = (?pieces, ''<c>'')"
    by code_simp
  have ip: "in_place ?raw [] ?pieces"
    by code_simp
  have res: "resolves 0 False (disk twice_table) ?f ?m start ?x start"
    unfolding resolves_def by code_simp
  have ff: "find_first (directive ''x.html'') (''<a>'' @ directive ''x.html'' @ ?b) = Some (''<a>'', ?b)"
    by code_simp
  have least: "\<forall>a' b'. ''<a>'' @ dmatch.string ?m @ ?b = a' @ dmatch.string ?m @ b' \<longrightarrow>
                 length ''<a>'' \<le> length a'"
    using find_first_least [OF ff] by simp
  have nf: "find_first (directive ''x.html'') ''<p>no directive</p>'' = None"
    by code_simp
  then have none: "\<forall>a b. ''<p>no directive</p>'' \<noteq> a @ dmatch.string ?m @ b"
    unfolding find_first_None_iff by simp
  have all: "\<forall>(gap, path') \<in> set ?pieces. \<forall>st.
       resolves 0 False (disk twice_table) ?f \<lparr>string = directive path', filename = path'\<rparr> st
         (?raw path') ((\<lambda>path' st. st) path' st)"
  proof -
    have "disk twice_table (match_directory ?f @ ''/'' @ ''x.html'') = Inr (?raw ''x.html'')"
      by code_simp
    then show ?thesis
      by (simp add: resolves_def)
  qed
  have sp: "splice ?raw ?pieces ''<c>'' = ''<a>'' @ ?x @ [CHR 0x0A] @ ?x @ ''<c>''"
    by code_simp
  have step1: "include_matches 0 False (disk twice_table) ?f [?m] (''<a>'' @ dmatch.string ?m @ ?b) start =
               include_matches 0 False (disk twice_table) ?f [] (''<a>'' @ ?x @ ?b) start"
    using replacements_in_place
      [where ?depth = 0 and ?recursive = False and ?read = "disk twice_table" and ?file = ?f
         and ?m = ?m and ?st = "start" and ?c = ?x and ?st' = "start" and ?a = "''<a>''" and ?b = ?b
         and ?rest = "[]"]
      res lit least by blast
  have step2: "include_matches 0 False (disk twice_table) ?f [?m] ''<p>no directive</p>'' start =
               include_matches 0 False (disk twice_table) ?f [] ''<p>no directive</p>'' start"
    using replacements_in_place
      [where ?depth = 0 and ?recursive = False and ?read = "disk twice_table" and ?file = ?f
         and ?m = ?m and ?st = "start" and ?c = ?x and ?st' = "start"
         and ?contents = "''<p>no directive</p>''" and ?rest = "[]"]
      res none by blast
  have whole: "include_matches 0 False (disk twice_table) ?f (getMatches ?c) ?c start =
        (Completed, splice ?raw ?pieces ''<c>'', fold (\<lambda>(gap, path'). (\<lambda>path' st. st) path') ?pieces start)"
    using replacements_in_place
      [where ?depth = 0 and ?recursive = False and ?read = "disk twice_table" and ?file = ?f
         and ?contents = ?c and ?pieces = ?pieces and ?tail = "''<c>''" and ?fragment = ?raw
         and ?step = "\<lambda>path' st. st" and ?st = "start"]
      l all ip by blast
  from step1 have s1: "include_matches 0 False (disk twice_table) ?f [?m] ?c start =
                       (Completed, ''<a>'' @ ?x @ ?b, start)"
    by simp
  from step2 have s2: "include_matches 0 False (disk twice_table) ?f [?m] ''<p>no directive</p>'' start =
                       (Completed, ''<p>no directive</p>'', start)"
    by simp
  from whole have s3: "include_matches 0 False (disk twice_table) ?f (getMatches ?c) ?c start =
                       (Completed, ''<a>'' @ ?x @ [CHR 0x0A] @ ?x @ ''<c>'', start)"
    unfolding sp by simp
  from x lit l ip s1 s2 s3 show ?thesis
    by (intro conjI)
qed

section \<open>Properties of the expansion\<close>















section \<open>Nested directives\<close>




end
